theory Spec2Isabelle
  imports Main
begin

section \<open>Data model of \<^verbatim>\<open>main.py\<close>\<close>

text \<open>
  The bot keeps two process-wide tables (\<^verbatim>\<open>file_id_storage\<close>, a dict from slug to
  Telegram file id, and \<^verbatim>\<open>query_cache\<close>, a \<^verbatim>\<open>TTLCache\<close>), one file on disk
  (\<^verbatim>\<open>file_ids.json\<close>) and talks to three remote parties: the catalog API, the media
  storage and Telegram. The model threads a \<open>world\<close> record through every function and
  takes the remote parties as an \<open>env\<close> record of oracles. Every oracle sees the list of
  network calls made so far, so an oracle may answer the same request differently at
  different moments. Every \<^verbatim>\<open>raise\<close> is a value \<open>Inl e\<close>; the world is returned
  next to it, because what a handler changed before it raised stays changed.

  Song records are JSON objects. A field is \<open>None\<close> when the key is absent; values of an
  unexpected JSON type are outside the model, except the album, which the catalog may
  send as \<^verbatim>\<open>null\<close>. Writing \<^verbatim>\<open>file_ids.json\<close> is taken to succeed.
\<close>

datatype error =
  KeyError | AttributeError | TypeError | JSONDecodeError | ClientError | TelegramError

datatype album_field = AlbumNull | AlbumObject "string option"

record song =
  slug :: "string option"
  file_url :: "string option"
  length_field :: "nat option"
  authors :: "string option list option"
  name :: "string option"
  album :: "album_field option"
  image_cropped :: "string option"

text \<open>The keyword arguments of one \<^verbatim>\<open>context.bot.send_audio\<close> call.\<close>

record audio_upload =
  chat_id :: string
  audio_name :: string
  audio :: string
  duration :: nat
  performer :: string
  title :: string
  caption :: string
  thumbnail :: "string option"

datatype inline_result =
  InlineQueryResultCachedAudio (result_id: string) (audio_file_id: string)
    (result_caption: string)

datatype event =
  CatalogSearch string
  | CatalogPage string
  | MediaFetch string
  | ThumbnailFetch string
  | SendAudio audio_upload
  | AnswerInlineQuery string "inline_result list"

text \<open>
  An HTTP exchange either raises inside \<^verbatim>\<open>aiohttp\<close> (\<open>Failed\<close>) or gives a status and
  a body. A catalog body is \<open>None\<close> when it is not JSON, else the object's
  \<^verbatim>\<open>results\<close> and \<^verbatim>\<open>next\<close> keys.
\<close>

datatype 'a http_response = Failed | Response nat 'a

datatype page = Page (page_results: "song list option") (page_next: "string option")

record env =
  catalog_get :: "event list \<Rightarrow> string \<Rightarrow> page option http_response"
  media_get :: "event list \<Rightarrow> string \<Rightarrow> string http_response"
  send_audio :: "event list \<Rightarrow> audio_upload \<Rightarrow> string option"
  answer_inline_query :: "event list \<Rightarrow> string \<Rightarrow> inline_result list \<Rightarrow> bool"
  timer :: "nat \<Rightarrow> nat"

text \<open>
  \<open>timer env n\<close> is the \<open>n\<close>-th reading of the cache's clock in the life of the process;
  \<open>send_audio\<close> gives the file id of the sent message, or \<open>None\<close> when the call raises;
  \<open>answer_inline_query\<close> is \<open>False\<close> when the call raises.
\<close>

text \<open>
  \<^verbatim>\<open>file_ids.json\<close>: absent, holding text that \<^verbatim>\<open>json.load\<close> rejects, or holding a
  JSON object from slugs to file ids. \<^verbatim>\<open>json.dump\<close> writes such an object and
  \<^verbatim>\<open>json.load\<close> reads the same object back.
\<close>

datatype disk_file = NoFile | Unparseable | JsonFile "string \<rightharpoonup> string"

text \<open>
  The state of the process: the two module-level tables, the file, the network calls made
  so far (oldest first) and the number of clock readings taken so far. The cache lists its
  entries from least to most recently used, each with the instant at which it expires.
\<close>

type_synonym ttl_cache = "(string \<times> inline_result list \<times> nat) list"

record world =
  file_id_storage :: "string \<rightharpoonup> string"
  query_cache :: ttl_cache
  disk :: disk_file
  net_log :: "event list"
  ticks :: nat

section \<open>The Token Store: \<^verbatim>\<open>store_file_id\<close>, \<^verbatim>\<open>load_file_ids\<close>\<close>

definition store_file_id :: "string \<Rightarrow> string \<Rightarrow> world \<Rightarrow> world" where
  "store_file_id k file_id st =
     (let storage = (file_id_storage st)(k \<mapsto> file_id)
      in st\<lparr>file_id_storage := storage, disk := JsonFile storage\<rparr>)"

fun load_file_ids :: "disk_file \<Rightarrow> error + (string \<rightharpoonup> string)" where
  "load_file_ids NoFile = Inr Map.empty"
| "load_file_ids Unparseable = Inl JSONDecodeError"
| "load_file_ids (JsonFile m) = Inr m"

text \<open>
  Module level, lines 39 and 40: the storage is what \<^verbatim>\<open>load_file_ids\<close> returns and the
  query cache starts empty. An exception here ends the process before it serves anything.
\<close>

definition startup :: "disk_file \<Rightarrow> error + world" where
  "startup d =
     (case load_file_ids d of
        Inl e \<Rightarrow> Inl e
      | Inr m \<Rightarrow>
          Inr \<lparr>file_id_storage = m, query_cache = [], disk = d, net_log = [], ticks = 0\<rparr>)"

section \<open>The Query Cache\<close>

text \<open>
  Modelled from the spec: \<^verbatim>\<open>cachetools.TTLCache(maxsize=100, ttl=600)\<close> is a library
  class and not part of the repository. Section 4.4 of the specification gives its
  contract: an entry expires a fixed 600 time units after insertion, an expired entry is
  a miss, at most 100 entries are held and inserting into a full cache evicts the least
  recently used one. The list holds the entries from least to most recently used, each
  with its expiry instant. \<open>cache_getitem\<close> gives \<open>None\<close> where the library raises
  \<^verbatim>\<open>KeyError\<close>.
\<close>

definition maxsize :: nat where
  "maxsize = 100"

definition ttl :: nat where
  "ttl = 600"

definition cache_contains :: "ttl_cache \<Rightarrow> string \<Rightarrow> nat \<Rightarrow> bool" where
  "cache_contains c k now = (case map_of c k of None \<Rightarrow> False | Some (v, e) \<Rightarrow> now < e)"

definition cache_getitem ::
  "ttl_cache \<Rightarrow> string \<Rightarrow> nat \<Rightarrow> inline_result list option \<times> ttl_cache" where
  "cache_getitem c k now =
     (case map_of c k of
        None \<Rightarrow> (None, c)
      | Some (v, e) \<Rightarrow>
          (if now < e then Some v else None, filter (\<lambda>x. fst x \<noteq> k) c @ [(k, v, e)]))"

fun evict :: "ttl_cache \<Rightarrow> ttl_cache" where
  "evict [] = []"
| "evict (x # xs) = (if length (x # xs) + 1 > maxsize then evict xs else x # xs)"

definition cache_setitem ::
  "ttl_cache \<Rightarrow> string \<Rightarrow> inline_result list \<Rightarrow> nat \<Rightarrow> ttl_cache" where
  "cache_setitem c k v now =
     (let live = filter (\<lambda>x. now < snd (snd x)) c;
          room = (if k \<in> fst ` set live then live else evict live)
      in filter (\<lambda>x. fst x \<noteq> k) room @ [(k, v, now + ttl)])"

section \<open>The Media Resolver: \<^verbatim>\<open>get_telegram_file_id\<close>\<close>

definition API_BASE_URL :: string where
  "API_BASE_URL = ''https://new.akarpov.ru/api/v1/music/song/''"

text \<open>\<^verbatim>\<open>", ".join(names)\<close>\<close>

fun join :: "string list \<Rightarrow> string" where
  "join [] = []"
| "join [x] = x"
| "join (x # y # ys) = x @ '', '' @ join (y # ys)"

text \<open>The list comprehension of line 94: the first author without a name raises.\<close>

fun author_names :: "string option list \<Rightarrow> error + string list" where
  "author_names [] = Inr []"
| "author_names (None # as) = Inl KeyError"
| "author_names (Some n # as) =
     (case author_names as of Inl e \<Rightarrow> Inl e | Inr ns \<Rightarrow> Inr (n # ns))"

record metadata =
  md_file_url :: string
  md_duration :: nat
  md_performer :: string
  md_title :: string
  md_caption :: string
  md_thumbnail_url :: "string option"

text \<open>Lines 92 to 98, in the order the source evaluates them.\<close>

definition extract_metadata :: "string \<Rightarrow> song \<Rightarrow> error + metadata" where
  "extract_metadata k song_data =
     (case file_url song_data of
        None \<Rightarrow> Inl KeyError
      | Some url \<Rightarrow>
          (case author_names (case authors song_data of None \<Rightarrow> [] | Some as \<Rightarrow> as) of
             Inl e \<Rightarrow> Inl e
           | Inr names \<Rightarrow>
               (case album song_data of
                  Some AlbumNull \<Rightarrow> Inl AttributeError
                | a \<Rightarrow>
                    Inr \<lparr>md_file_url = url,
                         md_duration = (case length_field song_data of None \<Rightarrow> 0 | Some n \<Rightarrow> n),
                         md_performer = join names,
                         md_title =
                           (case name song_data of None \<Rightarrow> ''Unknown Title'' | Some t \<Rightarrow> t),
                         md_caption =
                           ''https://next.akarpov.ru/music/albums/''
                           @ (case a of Some (AlbumObject (Some s)) \<Rightarrow> s | _ \<Rightarrow> '''')
                           @ ''#'' @ k,
                         md_thumbnail_url = image_cropped song_data\<rparr>)))"

text \<open>\<^verbatim>\<open>download_thumbnail\<close>: the bytes on status 200, \<^verbatim>\<open>None\<close> on any other status.\<close>

definition download_thumbnail ::
  "env \<Rightarrow> string \<Rightarrow> world \<Rightarrow> (error + string option) \<times> world" where
  "download_thumbnail env image_url st =
     (let st1 = st\<lparr>net_log := net_log st @ [ThumbnailFetch image_url]\<rparr>
      in case media_get env (net_log st) image_url of
           Failed \<Rightarrow> (Inl ClientError, st1)
         | Response status image_data \<Rightarrow>
             (if status = 200 then (Inr (Some image_data), st1) else (Inr None, st1)))"

text \<open>
  Lines 107 to 110: the thumbnail is asked for only when the URL is truthy (present and
  not the empty string).
\<close>

definition fetch_thumbnail ::
  "env \<Rightarrow> string option \<Rightarrow> world \<Rightarrow> (error + string option) \<times> world" where
  "fetch_thumbnail env thumbnail_url st =
     (case thumbnail_url of
        None \<Rightarrow> (Inr None, st)
      | Some u \<Rightarrow> (if u = [] then (Inr None, st) else download_thumbnail env u st))"

text \<open>
  Lines 111 to 139. Both \<^verbatim>\<open>send_audio\<close> calls differ only in the thumbnail argument.
  The file id is put into the storage and the whole storage is written to disk.
\<close>

definition upload_audio ::
  "env \<Rightarrow> string \<Rightarrow> metadata \<Rightarrow> string \<Rightarrow> string option \<Rightarrow> world
     \<Rightarrow> (error + string option) \<times> world" where
  "upload_audio env k md file_content thumbnail_io st =
     (let req = \<lparr>chat_id = ''868474142'', audio_name = k @ ''.mp3'', audio = file_content,
                  duration = md_duration md, performer = md_performer md,
                  title = md_title md, caption = md_caption md, thumbnail = thumbnail_io\<rparr>;
          st1 = st\<lparr>net_log := net_log st @ [SendAudio req]\<rparr>
      in case send_audio env (net_log st) req of
           None \<Rightarrow> (Inl TelegramError, st1)
         | Some file_id \<Rightarrow>
             (let storage = (file_id_storage st1)(k \<mapsto> file_id)
              in (Inr (Some file_id),
                  st1\<lparr>file_id_storage := storage, disk := JsonFile storage\<rparr>)))"

definition get_telegram_file_id ::
  "env \<Rightarrow> song \<Rightarrow> world \<Rightarrow> (error + string option) \<times> world" where
  "get_telegram_file_id env song_data st =
     (case slug song_data of
        None \<Rightarrow> (Inl KeyError, st)
      | Some k \<Rightarrow>
          (case file_id_storage st k of
             Some file_id \<Rightarrow> (Inr (Some file_id), st)
           | None \<Rightarrow>
               (case extract_metadata k song_data of
                  Inl e \<Rightarrow> (Inl e, st)
                | Inr md \<Rightarrow>
                    (let st1 = st\<lparr>net_log := net_log st @ [MediaFetch (md_file_url md)]\<rparr>
                     in case media_get env (net_log st) (md_file_url md) of
                          Failed \<Rightarrow> (Inl ClientError, st1)
                        | Response status file_content \<Rightarrow>
                            (if status = 200 then
                               (case fetch_thumbnail env (md_thumbnail_url md) st1 of
                                  (Inl e, st2) \<Rightarrow> (Inl e, st2)
                                | (Inr thumbnail_io, st2) \<Rightarrow>
                                    upload_audio env k md file_content thumbnail_io st2)
                             else (Inr None, st1))))))"

section \<open>The Inline Query Service: \<^verbatim>\<open>inline_query\<close>\<close>

text \<open>
  \<^verbatim>\<open>str.strip()\<close> removes leading and trailing whitespace. A \<open>char\<close> stands for one
  code point of the query, so the model has the code points below 256; among them Python
  counts as whitespace the characters 9 to 13, 28 to 32, U+0085 and U+00A0. Queries with
  code points from 256 on are outside the model.
\<close>

definition is_space :: "char \<Rightarrow> bool" where
  "is_space c =
     (c \<in> set [CHR 0x09, CHR 0x0A, CHR 0x0B, CHR 0x0C, CHR 0x0D,
               CHR 0x1C, CHR 0x1D, CHR 0x1E, CHR 0x1F, CHR 0x20, CHR 0x85, CHR 0xA0])"

definition strip :: "string \<Rightarrow> string" where
  "strip s = rev (dropWhile is_space (rev (dropWhile is_space s)))"

text \<open>The URL of line 52.\<close>

definition search_url :: "string \<Rightarrow> string" where
  "search_url query = API_BASE_URL @ ''?search='' @ query @ ''&page_size=5''"

definition fetch_songs_from_api :: "env \<Rightarrow> string \<Rightarrow> world \<Rightarrow> (error + page) \<times> world" where
  "fetch_songs_from_api env query st =
     (let url = search_url query;
          st1 = st\<lparr>net_log := net_log st @ [CatalogSearch url]\<rparr>
      in case catalog_get env (net_log st) url of
           Failed \<Rightarrow> (Inl ClientError, st1)
         | Response status body \<Rightarrow>
             (if status = 200 then
                (case body of None \<Rightarrow> (Inl JSONDecodeError, st1) | Some p \<Rightarrow> (Inr p, st1))
              else (Inr (Page (Some []) None), st1)))"

text \<open>
  Lines 158 to 162: the result built for a song that resolved. The album is read with
  \<^verbatim>\<open>song['album']['slug']\<close>, which raises when a key is absent or the album is null.
\<close>

definition cached_audio :: "song \<Rightarrow> string \<Rightarrow> error + inline_result" where
  "cached_audio song_data file_id =
     (case slug song_data of
        None \<Rightarrow> Inl KeyError
      | Some k \<Rightarrow>
          (case album song_data of
             None \<Rightarrow> Inl KeyError
           | Some AlbumNull \<Rightarrow> Inl TypeError
           | Some (AlbumObject None) \<Rightarrow> Inl KeyError
           | Some (AlbumObject (Some a)) \<Rightarrow>
               Inr (InlineQueryResultCachedAudio k file_id
                      (''https://next.akarpov.ru/music/albums/'' @ a @ ''#'' @ k))))"

text \<open>
  The loop of lines 154 to 163. \<^verbatim>\<open>if file_id:\<close> is false for \<^verbatim>\<open>None\<close> and for
  the empty string.
\<close>

fun resolve_results ::
  "env \<Rightarrow> song list \<Rightarrow> inline_result list \<Rightarrow> world
     \<Rightarrow> (error + inline_result list) \<times> world" where
  "resolve_results env [] results st = (Inr results, st)"
| "resolve_results env (song_data # songs) results st =
     (case get_telegram_file_id env song_data st of
        (Inl e, st1) \<Rightarrow> (Inl e, st1)
      | (Inr None, st1) \<Rightarrow> resolve_results env songs results st1
      | (Inr (Some file_id), st1) \<Rightarrow>
          (if file_id = [] then resolve_results env songs results st1
           else
             (case cached_audio song_data file_id of
                Inl e \<Rightarrow> (Inl e, st1)
              | Inr r \<Rightarrow> resolve_results env songs (results @ [r]) st1)))"

text \<open>
  Lines 146 to 165: the results of one inline query, from the cache or freshly resolved.
  Each cache operation reads the clock once.
\<close>

definition inline_query_results ::
  "env \<Rightarrow> string \<Rightarrow> world \<Rightarrow> (error + inline_result list) \<times> world" where
  "inline_query_results env raw_query st =
     (let query = strip raw_query;
          st1 = st\<lparr>ticks := ticks st + 1\<rparr>
      in if cache_contains (query_cache st) query (timer env (ticks st)) then
           (case cache_getitem (query_cache st1) query (timer env (ticks st1)) of
              (r, c) \<Rightarrow>
                (let st2 = st1\<lparr>query_cache := c, ticks := ticks st1 + 1\<rparr>
                 in case r of None \<Rightarrow> (Inl KeyError, st2) | Some results \<Rightarrow> (Inr results, st2)))
         else
           (case fetch_songs_from_api env query st1 of
              (Inl e, st2) \<Rightarrow> (Inl e, st2)
            | (Inr songs, st2) \<Rightarrow>
                (case page_results songs of
                   None \<Rightarrow> (Inl KeyError, st2)
                 | Some song_list \<Rightarrow>
                     (case resolve_results env song_list [] st2 of
                        (Inl e, st3) \<Rightarrow> (Inl e, st3)
                      | (Inr rs, st3) \<Rightarrow>
                          (Inr rs,
                           st3\<lparr>query_cache :=
                                  cache_setitem (query_cache st3) query rs (timer env (ticks st3)),
                                ticks := ticks st3 + 1\<rparr>)))))"

record update =
  inline_query_id :: string
  inline_query_query :: string

text \<open>The whole handler: line 167 hands the results to Telegram.\<close>

definition inline_query :: "env \<Rightarrow> update \<Rightarrow> world \<Rightarrow> (error + unit) \<times> world" where
  "inline_query env upd st =
     (case inline_query_results env (inline_query_query upd) st of
        (Inl e, st1) \<Rightarrow> (Inl e, st1)
      | (Inr rs, st1) \<Rightarrow>
          (let st2 = st1\<lparr>net_log := net_log st1 @ [AnswerInlineQuery (inline_query_id upd) rs]\<rparr>
           in if answer_inline_query env (net_log st1) (inline_query_id upd) rs
              then (Inr (), st2) else (Inl TelegramError, st2)))"

section \<open>The Bulk Ingestion Job: \<^verbatim>\<open>upload_songs\<close>\<close>

text \<open>
  The pagination loop of \<^verbatim>\<open>fetch_all_songs_from_api\<close> follows the \<^verbatim>\<open>next\<close> link for as
  long as the catalog gives one, so it need not end. \<open>fuel\<close> bounds the number of pages
  fetched; \<open>None\<close> means the bound was reached with a page still to fetch.
\<close>

fun fetch_pages ::
  "nat \<Rightarrow> env \<Rightarrow> string option \<Rightarrow> song list \<Rightarrow> world
     \<Rightarrow> ((error + song list) \<times> world) option" where
  "fetch_pages fuel env None all_songs st = Some (Inr all_songs, st)"
| "fetch_pages 0 env (Some u) all_songs st =
     (if u = [] then Some (Inr all_songs, st) else None)"
| "fetch_pages (Suc fuel) env (Some u) all_songs st =
     (if u = [] then Some (Inr all_songs, st)
      else
        (let st1 = st\<lparr>net_log := net_log st @ [CatalogPage u]\<rparr>
         in case catalog_get env (net_log st) u of
              Failed \<Rightarrow> Some (Inl ClientError, st1)
            | Response status body \<Rightarrow>
                (if status = 200 then
                   (case body of
                      None \<Rightarrow> Some (Inl JSONDecodeError, st1)
                    | Some data \<Rightarrow>
                        (case page_results data of
                           None \<Rightarrow> Some (Inl KeyError, st1)
                         | Some rs \<Rightarrow> fetch_pages fuel env (page_next data) (all_songs @ rs) st1))
                 else Some (Inr all_songs, st1))))"

definition fetch_all_songs_from_api ::
  "nat \<Rightarrow> env \<Rightarrow> world \<Rightarrow> ((error + song list) \<times> world) option" where
  "fetch_all_songs_from_api fuel env st =
     fetch_pages fuel env (Some (API_BASE_URL @ ''?page_size=1000'')) [] st"

text \<open>The loop of lines 198 to 209.\<close>

fun upload_each :: "env \<Rightarrow> song list \<Rightarrow> world \<Rightarrow> (error + unit) \<times> world" where
  "upload_each env [] st = (Inr (), st)"
| "upload_each env (song_data # songs) st =
     (case slug song_data of
        None \<Rightarrow> (Inl KeyError, st)
      | Some k \<Rightarrow>
          (case file_id_storage st k of
             Some present \<Rightarrow> upload_each env songs st
           | None \<Rightarrow>
               (case get_telegram_file_id env song_data st of
                  (Inl e, st1) \<Rightarrow> (Inl e, st1)
                | (Inr None, st1) \<Rightarrow> upload_each env songs st1
                | (Inr (Some file_id), st1) \<Rightarrow>
                    (if file_id = [] then upload_each env songs st1
                     else upload_each env songs (store_file_id k file_id st1)))))"

text \<open>
  \<^verbatim>\<open>upload_songs\<close> has a bare \<^verbatim>\<open>return\<close> for an empty listing and no \<^verbatim>\<open>return\<close>
  after the loop: the value of the coroutine is Python's \<^verbatim>\<open>None\<close> on both paths. The
  result type leaves room for the count a caller might expect (\<open>Some n\<close>).
\<close>

definition upload_songs ::
  "nat \<Rightarrow> env \<Rightarrow> world \<Rightarrow> ((error + nat option) \<times> world) option" where
  "upload_songs fuel env st =
     (case fetch_all_songs_from_api fuel env st of
        None \<Rightarrow> None
      | Some (Inl e, st1) \<Rightarrow> Some (Inl e, st1)
      | Some (Inr songs, st1) \<Rightarrow>
          (if songs = [] then Some (Inr None, st1)
           else
             (case upload_each env songs st1 of
                (Inl e, st2) \<Rightarrow> Some (Inl e, st2)
              | (Inr u, st2) \<Rightarrow> Some (Inr None, st2))))"

section \<open>Notions used by the properties\<close>

text \<open>The file on disk holds the storage: a fresh process would load the same mapping.\<close>

definition persisted :: "world \<Rightarrow> bool" where
  "persisted st = (load_file_ids (disk st) = Inr (file_id_storage st))"

text \<open>
  The media fetch of a song fails: its metadata can be read, so that the fetch is made,
  and the media storage answers the audio URL with a status other than 200 whenever it
  is asked.
\<close>

definition media_fetch_fails :: "env \<Rightarrow> song \<Rightarrow> bool" where
  "media_fetch_fails env s =
     (\<exists>k md. slug s = Some k \<and> extract_metadata k s = Inr md \<and>
        (\<forall>lg. \<exists>status body.
           media_get env lg (md_file_url md) = Response status body \<and> status \<noteq> 200))"

text \<open>
  The songs that a catalog search hands to the loop of \<^verbatim>\<open>inline_query\<close>, given the
  network calls made so far: the page's results on status 200, none on another status.
\<close>

definition searched_songs :: "env \<Rightarrow> event list \<Rightarrow> string \<Rightarrow> song list" where
  "searched_songs env lg query =
     (case catalog_get env lg (search_url query) of
        Failed \<Rightarrow> []
      | Response status body \<Rightarrow>
          (if status = 200 then
             (case body of None \<Rightarrow> [] | Some p \<Rightarrow> (case page_results p of None \<Rightarrow> [] | Some l \<Rightarrow> l))
           else []))"




text \<open>
  A put into the Token Store happens at two places of the source: in \<^verbatim>\<open>store_file_id\<close>
  and inside the resolver after an upload. \<open>run_puts\<close> runs a sequence of both.
\<close>

datatype token_put = Stored string string | Resolved song

fun run_puts :: "env \<Rightarrow> token_put list \<Rightarrow> world \<Rightarrow> world" where
  "run_puts env [] st = st"
| "run_puts env (Stored k file_id # ps) st = run_puts env ps (store_file_id k file_id st)"
| "run_puts env (Resolved s # ps) st = run_puts env ps (snd (get_telegram_file_id env s st))"

text \<open>The same query asked \<open>n\<close> times in a row; the results of the calls, in order.\<close>

fun repeat_query ::
  "env \<Rightarrow> string \<Rightarrow> nat \<Rightarrow> world \<Rightarrow> (error + inline_result list) list \<times> world" where
  "repeat_query env q 0 st = ([], st)"
| "repeat_query env q (Suc n) st =
     (case inline_query_results env q st of
        (r, st1) \<Rightarrow> (case repeat_query env q n st1 of (rs, st2) \<Rightarrow> (r # rs, st2)))"

fun is_media_fetch :: "event \<Rightarrow> bool" where
  "is_media_fetch (MediaFetch u) = True"
| "is_media_fetch e = False"

text \<open>The song's slug has an entry in the storage.\<close>

definition present :: "world \<Rightarrow> song \<Rightarrow> bool" where
  "present st s = (case slug s of None \<Rightarrow> False | Some k \<Rightarrow> file_id_storage st k \<noteq> None)"

text \<open>
  A record that has every key the handler subscripts: \<^verbatim>\<open>slug\<close>, \<^verbatim>\<open>file\<close>, a
  \<^verbatim>\<open>name\<close> in each author and an album object with a \<^verbatim>\<open>slug\<close>.
\<close>

definition well_formed :: "song \<Rightarrow> bool" where
  "well_formed s =
     (slug s \<noteq> None \<and> file_url s \<noteq> None \<and>
      list_all (\<lambda>a. a \<noteq> None) (case authors s of None \<Rightarrow> [] | Some as \<Rightarrow> as) \<and>
      (case album s of Some (AlbumObject (Some a)) \<Rightarrow> True | _ \<Rightarrow> False))"

text \<open>Media requests and uploads that never raise.\<close>

definition dependable :: "env \<Rightarrow> bool" where
  "dependable env =
     ((\<forall>lg u. media_get env lg u \<noteq> Failed) \<and> (\<forall>lg req. send_audio env lg req \<noteq> None))"

text \<open>
  The catalog answers the search without raising: any status other than 200, or status
  200 with a JSON page whose records are all well formed.
\<close>

definition page_usable :: "env \<Rightarrow> event list \<Rightarrow> string \<Rightarrow> bool" where
  "page_usable env lg query =
     (case catalog_get env lg (search_url query) of
        Failed \<Rightarrow> False
      | Response status body \<Rightarrow>
          (status = 200 \<longrightarrow>
             (case body of
                None \<Rightarrow> False
              | Some p \<Rightarrow> (case page_results p of None \<Rightarrow> False | Some l \<Rightarrow> list_all well_formed l))))"

section \<open>A scenario\<close>

text \<open>
  One catalog with two songs: \<open>abc\<close>, whose audio the media storage serves, and
  \<open>gone\<close>, whose audio URL answers 404. Telegram issues the file id \<open>tok123\<close>. The
  clock advances by one unit per reading.
\<close>

definition song_abc :: song where
  "song_abc =
     \<lparr>slug = Some ''abc'', file_url = Some ''http://x/a.mp3'', length_field = None,
      authors = Some [Some ''Art''], name = Some ''Blue'',
      album = Some (AlbumObject (Some ''al1'')), image_cropped = None\<rparr>"

definition song_gone :: song where
  "song_gone =
     \<lparr>slug = Some ''gone'', file_url = Some ''http://x/g.mp3'', length_field = Some 7,
      authors = None, name = None,
      album = Some (AlbumObject (Some ''al1'')), image_cropped = None\<rparr>"

definition demo_env :: env where
  "demo_env =
     \<lparr>catalog_get = (\<lambda>lg u. Response 200 (Some (Page (Some [song_abc, song_gone]) None))),
      media_get = (\<lambda>lg u. if u = ''http://x/a.mp3'' then Response 200 ''ID3'' else Response 404 []),
      send_audio = (\<lambda>lg req. Some ''tok123''),
      answer_inline_query = (\<lambda>lg i rs. True),
      timer = (\<lambda>n. n)\<rparr>"

definition empty_world :: world where
  "empty_world =
     \<lparr>file_id_storage = Map.empty, query_cache = [], disk = NoFile, net_log = [], ticks = 0\<rparr>"

definition stored_world :: world where
  "stored_world =
     \<lparr>file_id_storage = [''abc'' \<mapsto> ''tok123''], query_cache = [],
      disk = JsonFile [''abc'' \<mapsto> ''tok123''], net_log = [], ticks = 0\<rparr>"

definition abc_result :: inline_result where
  "abc_result =
     InlineQueryResultCachedAudio ''abc'' ''tok123''
       ''https://next.akarpov.ru/music/albums/al1#abc''"

definition abc_upload :: audio_upload where
  "abc_upload =
     \<lparr>chat_id = ''868474142'', audio_name = ''abc.mp3'', audio = ''ID3'', duration = 0,
      performer = ''Art'', title = ''Blue'',
      caption = ''https://next.akarpov.ru/music/albums/al1#abc'', thumbnail = None\<rparr>"

text \<open>The world after the query \<open>blue\<close> was answered in the empty world.\<close>

definition blue_world :: world where
  "blue_world =
     \<lparr>file_id_storage = [''abc'' \<mapsto> ''tok123''],
      query_cache = [(''blue'', [abc_result], 601)],
      disk = JsonFile [''abc'' \<mapsto> ''tok123''],
      net_log =
        [CatalogSearch ''https://new.akarpov.ru/api/v1/music/song/?search=blue&page_size=5'',
         MediaFetch ''http://x/a.mp3'', SendAudio abc_upload, MediaFetch ''http://x/g.mp3''],
      ticks = 2\<rparr>"

text \<open>The world after a bulk ingestion run that started with \<open>abc\<close> stored.\<close>

definition ingested_world :: world where
  "ingested_world =
     stored_world
       \<lparr>net_log :=
          [CatalogPage ''https://new.akarpov.ru/api/v1/music/song/?page_size=1000'',
           MediaFetch ''http://x/g.mp3'']\<rparr>"

text \<open>The world after a bulk ingestion run that started with nothing stored.\<close>

definition uploaded_world :: world where
  "uploaded_world =
     \<lparr>file_id_storage = [''abc'' \<mapsto> ''tok123''], query_cache = [],
      disk = JsonFile [''abc'' \<mapsto> ''tok123''],
      net_log =
        [CatalogPage ''https://new.akarpov.ru/api/v1/music/song/?page_size=1000'',
         MediaFetch ''http://x/a.mp3'', SendAudio abc_upload, MediaFetch ''http://x/g.mp3''],
      ticks = 0\<rparr>"

text \<open>A catalog that is down, and the world after the query \<open>blue\<close> was answered with it.\<close>

definition down_env :: env where
  "down_env = demo_env\<lparr>catalog_get := (\<lambda>lg u. Response 503 None)\<rparr>"

definition down_world :: world where
  "down_world =
     \<lparr>file_id_storage = Map.empty, query_cache = [(''blue'', [], 601)], disk = NoFile,
      net_log =
        [CatalogSearch ''https://new.akarpov.ru/api/v1/music/song/?search=blue&page_size=5''],
      ticks = 2\<rparr>"

text \<open>A catalog whose page holds a record without a slug.\<close>

definition slugless_env :: env where
  "slugless_env =
     demo_env
       \<lparr>catalog_get :=
          (\<lambda>lg u. Response 200 (Some (Page (Some [song_abc\<lparr>slug := None\<rparr>]) None)))\<rparr>"

definition demo_update :: update where
  "demo_update = \<lparr>inline_query_id = ''1'', inline_query_query = ''blue''\<rparr>"

section \<open>Lemmas about the resolver and the loops\<close>

subsection \<open>One resolution\<close>

lemmas resolver_defs = get_telegram_file_id_def upload_audio_def fetch_thumbnail_def
  download_thumbnail_def Let_def

lemmas resolver_splits = option.splits sum.splits http_response.splits if_splits prod.splits

lemma gtf_storage_kept:
  "file_id_storage st k = Some t \<Longrightarrow>
   file_id_storage (snd (get_telegram_file_id env s st)) k = Some t"
  by (auto simp: resolver_defs split: resolver_splits)

lemma gtf_cache_kept:
  "query_cache (snd (get_telegram_file_id env s st)) = query_cache st"
  "ticks (snd (get_telegram_file_id env s st)) = ticks st"
  by (auto simp: resolver_defs split: resolver_splits)

lemma gtf_result_stored:
  "get_telegram_file_id env s st = (Inr x, st') \<Longrightarrow>
   \<exists>k. slug s = Some k \<and> file_id_storage st' k = x"
  by (auto simp: resolver_defs split: resolver_splits)

lemma gtf_other_slugs:
  "slug s = Some k \<Longrightarrow> k' \<noteq> k \<Longrightarrow>
   file_id_storage (snd (get_telegram_file_id env s st)) k' = file_id_storage st k'"
  by (auto simp: resolver_defs split: resolver_splits)

lemma gtf_no_slug:
  "slug s = None \<Longrightarrow> get_telegram_file_id env s st = (Inl KeyError, st)"
  by (simp add: get_telegram_file_id_def)

lemma gtf_persisted:
  "persisted st \<Longrightarrow> persisted (snd (get_telegram_file_id env s st))"
  by (auto simp: persisted_def resolver_defs split: resolver_splits)

lemma extract_metadata_url:
  "extract_metadata k s = Inr md \<Longrightarrow> file_url s = Some (md_file_url md)"
  by (auto simp: extract_metadata_def split: option.splits sum.splits album_field.splits)

lemma gtf_fails:
  assumes "media_fetch_fails env s" and "slug s = Some k" and "file_id_storage st k = None"
    and "file_url s = Some u"
  shows "get_telegram_file_id env s st = (Inr None, st\<lparr>net_log := net_log st @ [MediaFetch u]\<rparr>)"
proof -
  from assms(1,2) obtain md where md: "extract_metadata k s = Inr md"
    and bad: "\<forall>lg. \<exists>status body. media_get env lg (md_file_url md) = Response status body \<and> status \<noteq> 200"
    by (auto simp: media_fetch_fails_def)
  from bad obtain status body where
    "media_get env (net_log st) (md_file_url md) = Response status body" "status \<noteq> 200"
    by blast
  moreover from md assms(4) have "md_file_url md = u"
    using extract_metadata_url by fastforce
  ultimately show ?thesis using md assms(2,3)
    by (simp add: get_telegram_file_id_def)
qed

lemma gtf_log_grows: "\<exists>evs. net_log (snd (get_telegram_file_id env s st)) = net_log st @ evs"
  by (auto simp: resolver_defs split: resolver_splits)

lemma gtf_media_trace:
  "slug s = Some k \<Longrightarrow> file_id_storage st k = None \<Longrightarrow>
   get_telegram_file_id env s st = (Inr x, st') \<Longrightarrow>
   \<exists>u. file_url s = Some u \<and>
       filter is_media_fetch (net_log st') = filter is_media_fetch (net_log st) @ [MediaFetch u]"
  by (auto simp: resolver_defs dest: extract_metadata_url split: resolver_splits)

subsection \<open>The loop of the inline query\<close>

lemma rr_storage_kept:
  "file_id_storage st k = Some t \<Longrightarrow>
   file_id_storage (snd (resolve_results env songs acc st)) k = Some t"
proof (induction songs arbitrary: acc st)
  case Nil
  then show ?case by simp
next
  case (Cons s songs)
  obtain r st1 where g: "get_telegram_file_id env s st = (r, st1)"
    by (cases "get_telegram_file_id env s st")
  with Cons.prems have "file_id_storage st1 k = Some t"
    using gtf_storage_kept [of st k t env s] by simp
  with Cons.IH g show ?case
    by (auto split: sum.splits option.splits)
qed

lemma rr_cache_kept:
  "query_cache (snd (resolve_results env songs acc st)) = query_cache st \<and>
   ticks (snd (resolve_results env songs acc st)) = ticks st"
proof (induction songs arbitrary: acc st)
  case Nil
  then show ?case by simp
next
  case (Cons s songs)
  obtain r st1 where g: "get_telegram_file_id env s st = (r, st1)"
    by (cases "get_telegram_file_id env s st")
  then have "query_cache st1 = query_cache st" "ticks st1 = ticks st"
    using gtf_cache_kept [of env s st] by simp_all
  with Cons.IH g show ?case
    by (auto split: sum.splits option.splits)
qed

lemma cached_audio_id:
  "cached_audio s t = Inr r \<Longrightarrow> slug s = Some (result_id r) \<and> audio_file_id r = t"
  by (auto simp: cached_audio_def split: option.splits album_field.splits)






lemma rr_absent:
  "file_id_storage st k = None \<Longrightarrow>
   \<forall>s\<in>set songs. slug s = Some k \<longrightarrow> media_fetch_fails env s \<Longrightarrow>
   k \<notin> result_id ` set acc \<Longrightarrow>
   file_id_storage (snd (resolve_results env songs acc st)) k = None \<and>
   (\<forall>rs. fst (resolve_results env songs acc st) = Inr rs \<longrightarrow> k \<notin> result_id ` set rs)"
proof (induction songs arbitrary: acc st)
  case Nil
  then show ?case by simp
next
  case (Cons s songs)
  obtain r st1 where g: "get_telegram_file_id env s st = (r, st1)"
    by (cases "get_telegram_file_id env s st")
  have kept: "file_id_storage st1 k = None"
  proof (cases "slug s = Some k")
    case True
    with Cons.prems(2) have f: "media_fetch_fails env s" by simp
    then obtain u where "file_url s = Some u"
      by (auto simp: media_fetch_fails_def dest: extract_metadata_url)
    from gtf_fails [OF f True Cons.prems(1) this] g Cons.prems(1) show ?thesis by auto
  next
    case False
    show ?thesis
    proof (cases "slug s")
      case None
      with g Cons.prems(1) show ?thesis by (simp add: gtf_no_slug)
    next
      case (Some k')
      with False have "k \<noteq> k'" by simp
      with Some g Cons.prems(1) show ?thesis using gtf_other_slugs [of s k' k env st] by simp
    qed
  qed
  from Cons.prems(2) have rest: "\<forall>s\<in>set songs. slug s = Some k \<longrightarrow> media_fetch_fails env s"
    by simp
  show ?case
  proof (cases r)
    case (Inl e)
    with g kept show ?thesis by simp
  next
    case (Inr x)
    show ?thesis
    proof (cases "x = None \<or> x = Some []")
      case True
      with g Inr Cons.IH [OF kept rest Cons.prems(3)] show ?thesis
        by (auto split: option.splits)
    next
      case False
      then obtain t where t: "x = Some t" "t \<noteq> []" by auto
      show ?thesis
      proof (cases "cached_audio s t")
        case (Inl e)
        with g Inr t kept show ?thesis by simp
      next
        case (Inr e)
        from g \<open>r = Inr x\<close> t have "\<exists>k'. slug s = Some k' \<and> file_id_storage st1 k' = Some t"
          using gtf_result_stored by blast
        with kept cached_audio_id [OF Inr] have "result_id e \<noteq> k" by auto
        with Cons.prems(3) have "k \<notin> result_id ` set (acc @ [e])" by auto
        from Cons.IH [OF kept rest this] g \<open>r = Inr x\<close> t Inr show ?thesis by simp
      qed
    qed
  qed
qed

lemma rr_log_grows: "\<exists>evs. net_log (snd (resolve_results env songs acc st)) = net_log st @ evs"
proof (induction songs arbitrary: acc st)
  case Nil
  then show ?case by simp
next
  case (Cons s songs)
  obtain r st1 where g: "get_telegram_file_id env s st = (r, st1)"
    by (cases "get_telegram_file_id env s st")
  with gtf_log_grows [of env s st] obtain evs where evs: "net_log st1 = net_log st @ evs" by auto
  have "\<exists>evs'. net_log (snd (resolve_results env songs acc' st1)) = net_log st @ evs'" for acc'
    using Cons.IH [of acc' st1] evs by auto
  with evs g show ?case
    by (auto split: sum.splits option.splits)
qed

subsection \<open>The query cache\<close>

lemma map_of_snoc_fresh: "k \<notin> fst ` set c \<Longrightarrow> map_of (c @ [(k, v)]) k = Some v"
proof -
  assume "k \<notin> fst ` set c"
  then have "map_of c k = None" by (simp add: map_of_eq_None_iff)
  then show ?thesis by (simp add: map_add_def)
qed

lemma cache_setitem_entry: "map_of (cache_setitem c k v now) k = Some (v, now + ttl)"
  unfolding cache_setitem_def Let_def by (rule map_of_snoc_fresh) auto

lemma cache_getitem_entry:
  "map_of c k = Some (v, e) \<Longrightarrow> map_of (snd (cache_getitem c k now)) k = Some (v, e)"
  unfolding cache_getitem_def by (simp del: map_of_append) (rule map_of_snoc_fresh, auto)

lemma cache_getitem_hit:
  "map_of c k = Some (v, e) \<Longrightarrow> now < e \<Longrightarrow> fst (cache_getitem c k now) = Some v"
  by (simp add: cache_getitem_def)

subsection \<open>One inline query\<close>


lemma iqr_hit:
  assumes "map_of (query_cache st) (strip q) = Some (rs, e)"
    and "timer env (ticks st) < e" and "timer env (Suc (ticks st)) < e"
  shows "inline_query_results env q st =
     (Inr rs, st\<lparr>query_cache := snd (cache_getitem (query_cache st) (strip q) (timer env (Suc (ticks st)))),
                 ticks := ticks st + 2\<rparr>)"
  using assms by (simp add: inline_query_results_def cache_contains_def cache_getitem_def Let_def)

lemma iqr_entry:
  assumes "inline_query_results env q st = (Inr rs, st1)"
  shows "\<exists>e. map_of (query_cache st1) (strip q) = Some (rs, e)"
proof (cases "cache_contains (query_cache st) (strip q) (timer env (ticks st))")
  case True
  then obtain v e where ve: "map_of (query_cache st) (strip q) = Some (v, e)"
    by (auto simp: cache_contains_def split: option.splits)
  from cache_getitem_entry [OF ve] cache_getitem_hit [OF ve] True assms ve show ?thesis
    by (auto simp: inline_query_results_def Let_def cache_getitem_def
        simp del: map_of_append split: if_splits)
next
  case False
  with assms show ?thesis
    by (auto simp: inline_query_results_def Let_def cache_setitem_entry
        split: prod.splits sum.splits option.splits)
qed

lemma iqr_miss:
  assumes "\<not> cache_contains (query_cache st) (strip q) (timer env (ticks st))"
    and "inline_query_results env q st = (Inr rs, st')"
  shows "\<exists>st3. resolve_results env (searched_songs env (net_log st) (strip q)) []
             (st\<lparr>ticks := Suc (ticks st), net_log := net_log st @ [CatalogSearch (search_url (strip q))]\<rparr>)
           = (Inr rs, st3) \<and>
           st' = st3\<lparr>query_cache := cache_setitem (query_cache st3) (strip q) rs (timer env (ticks st3)),
                     ticks := Suc (ticks st3)\<rparr>"
  using assms
  by (auto simp: inline_query_results_def fetch_songs_from_api_def searched_songs_def Let_def
      split: http_response.splits option.splits sum.splits prod.splits if_splits)

lemma iqr_miss_any:
  assumes "\<not> cache_contains (query_cache st) (strip q) (timer env (ticks st))"
  shows "(\<exists>e. fst (inline_query_results env q st) = Inl e \<and>
            file_id_storage (snd (inline_query_results env q st)) = file_id_storage st) \<or>
         (\<exists>r st3. resolve_results env (searched_songs env (net_log st) (strip q)) []
             (st\<lparr>ticks := Suc (ticks st), net_log := net_log st @ [CatalogSearch (search_url (strip q))]\<rparr>)
           = (r, st3) \<and> fst (inline_query_results env q st) = r \<and>
           file_id_storage (snd (inline_query_results env q st)) = file_id_storage st3)"
  using assms
  by (auto simp: inline_query_results_def fetch_songs_from_api_def searched_songs_def Let_def
      split: http_response.splits option.splits sum.splits prod.splits if_splits)


lemma iqr_miss_resolved:
  assumes "\<not> cache_contains (query_cache st) (strip q) (timer env (ticks st))"
    and "catalog_get env (net_log st) (search_url (strip q)) = Response status body"
    and "status = 200 \<longrightarrow> (\<exists>l nx. body = Some (Page (Some l) nx))"
  shows "inline_query_results env q st =
     (case resolve_results env (searched_songs env (net_log st) (strip q)) []
             (st\<lparr>ticks := Suc (ticks st),
                 net_log := net_log st @ [CatalogSearch (search_url (strip q))]\<rparr>) of
        (Inl e, st3) \<Rightarrow> (Inl e, st3)
      | (Inr rs, st3) \<Rightarrow>
          (Inr rs,
           st3\<lparr>query_cache := cache_setitem (query_cache st3) (strip q) rs (timer env (ticks st3)),
               ticks := Suc (ticks st3)\<rparr>))"
  using assms
  by (auto simp: inline_query_results_def fetch_songs_from_api_def searched_songs_def Let_def
      split: prod.splits sum.splits)

lemma iqr_storage_kept:
  assumes "file_id_storage st k = Some t"
  shows "file_id_storage (snd (inline_query_results env q st)) k = Some t"
proof (cases "cache_contains (query_cache st) (strip q) (timer env (ticks st))")
  case True
  with assms show ?thesis
    by (simp add: inline_query_results_def Let_def split: prod.splits option.splits)
next
  case False
  let ?st2 = "st\<lparr>ticks := Suc (ticks st),
                  net_log := net_log st @ [CatalogSearch (search_url (strip q))]\<rparr>"
  let ?songs = "searched_songs env (net_log st) (strip q)"
  from assms have "file_id_storage ?st2 k = Some t" by simp
  then have loop: "file_id_storage (snd (resolve_results env ?songs [] ?st2)) k = Some t"
    by (rule rr_storage_kept)
  from iqr_miss_any [OF False] show ?thesis
  proof
    assume "\<exists>e. fst (inline_query_results env q st) = Inl e \<and>
      file_id_storage (snd (inline_query_results env q st)) = file_id_storage st"
    with assms show ?thesis by auto
  next
    assume "\<exists>r st3. resolve_results env ?songs [] ?st2 = (r, st3) \<and>
      fst (inline_query_results env q st) = r \<and>
      file_id_storage (snd (inline_query_results env q st)) = file_id_storage st3"
    then obtain r st3 where "resolve_results env ?songs [] ?st2 = (r, st3)"
      "file_id_storage (snd (inline_query_results env q st)) = file_id_storage st3"
      by blast
    with loop show ?thesis by simp
  qed
qed

lemma inline_query_storage_kept:
  "file_id_storage st k = Some t \<Longrightarrow> file_id_storage (snd (inline_query env upd st)) k = Some t"
  using iqr_storage_kept [of st k t env "inline_query_query upd"]
  by (auto simp: inline_query_def Let_def split: prod.splits sum.splits)

lemma repeat_hits:
  "map_of (query_cache st) (strip q) = Some (rs, e) \<Longrightarrow>
   \<forall>i<2 * n. timer env (ticks st + i) < e \<Longrightarrow>
   fst (repeat_query env q n st) = replicate n (Inr rs) \<and>
   net_log (snd (repeat_query env q n st)) = net_log st \<and>
   file_id_storage (snd (repeat_query env q n st)) = file_id_storage st"
proof (induction n arbitrary: st)
  case 0
  then show ?case by simp
next
  case (Suc n)
  have "0 < 2 * Suc n" "1 < 2 * Suc n" by simp_all
  with Suc.prems(2) have "timer env (ticks st + 0) < e" "timer env (ticks st + 1) < e"
    by blast+
  then have t0: "timer env (ticks st) < e" and t1: "timer env (Suc (ticks st)) < e"
    by simp_all
  let ?st1 = "st\<lparr>query_cache := snd (cache_getitem (query_cache st) (strip q) (timer env (Suc (ticks st)))),
                  ticks := ticks st + 2\<rparr>"
  have hit: "inline_query_results env q st = (Inr rs, ?st1)"
    by (rule iqr_hit [OF Suc.prems(1) t0 t1])
  have entry: "map_of (query_cache ?st1) (strip q) = Some (rs, e)"
    using cache_getitem_entry [OF Suc.prems(1)] by simp
  have later: "\<forall>i<2 * n. timer env (ticks ?st1 + i) < e"
  proof (intro allI impI)
    fix i assume "i < 2 * n"
    then have "i + 2 < 2 * Suc n" by simp
    with Suc.prems(2) have "timer env (ticks st + (i + 2)) < e" by blast
    then show "timer env (ticks ?st1 + i) < e" by (simp add: add.commute add.left_commute)
  qed
  from Suc.IH [OF entry later] hit show ?case
    by (auto split: prod.splits)
qed

subsection \<open>Runs in which nothing raises\<close>

lemma author_names_ok: "list_all (\<lambda>a. a \<noteq> None) as \<Longrightarrow> \<exists>ns. author_names as = Inr ns"
proof (induction as)
  case Nil
  then show ?case by simp
next
  case (Cons a as)
  then show ?case by (cases a) auto
qed

lemma well_formed_metadata:
  assumes "well_formed s"
  shows "\<exists>md. extract_metadata k s = Inr md"
proof -
  from assms obtain ns where
    "author_names (case authors s of None \<Rightarrow> [] | Some as \<Rightarrow> as) = Inr ns"
    using author_names_ok by (auto simp: well_formed_def)
  with assms show ?thesis
    by (auto simp: well_formed_def extract_metadata_def split: option.splits album_field.splits)
qed

lemma well_formed_cached: "well_formed s \<Longrightarrow> \<exists>r. cached_audio s t = Inr r"
  by (auto simp: well_formed_def cached_audio_def split: option.splits album_field.splits)

lemma gtf_no_raise:
  assumes "well_formed s" and "dependable env"
  shows "\<exists>x. fst (get_telegram_file_id env s st) = Inr x"
proof -
  from assms(1) obtain k where k: "slug s = Some k" by (auto simp: well_formed_def)
  from well_formed_metadata [OF assms(1)] obtain md where md: "extract_metadata k s = Inr md"
    by blast
  from assms(2) have m: "media_get env lg u \<noteq> Failed" and a: "send_audio env lg req \<noteq> None"
    for lg u req
    by (simp_all add: dependable_def)
  have thumb: "\<exists>x. fst (fetch_thumbnail env tu st1) = Inr x" for tu st1
    using m by (auto simp: fetch_thumbnail_def download_thumbnail_def Let_def
        split: option.splits http_response.splits)
  have up: "\<exists>x. fst (upload_audio env k md c th st1) = Inr x" for c th st1
    using a [of "net_log st1"] by (auto simp: upload_audio_def Let_def split: option.splits)
  show ?thesis
  proof (cases "media_get env (net_log st) (md_file_url md)")
    case Failed
    with m show ?thesis by simp
  next
    case (Response status content)
    let ?st1 = "st\<lparr>net_log := net_log st @ [MediaFetch (md_file_url md)]\<rparr>"
    obtain r st2 where t: "fetch_thumbnail env (md_thumbnail_url md) ?st1 = (r, st2)"
      by (cases "fetch_thumbnail env (md_thumbnail_url md) ?st1")
    with thumb [of "md_thumbnail_url md" ?st1] obtain th where "r = Inr th" by auto
    with k md Response t up [of content th st2] show ?thesis
      by (auto simp: get_telegram_file_id_def Let_def split: option.splits)
  qed
qed

lemma rr_no_raise:
  "list_all well_formed songs \<Longrightarrow> dependable env \<Longrightarrow>
   \<exists>rs. fst (resolve_results env songs acc st) = Inr rs"
proof (induction songs arbitrary: acc st)
  case Nil
  then show ?case by simp
next
  case (Cons s songs)
  from Cons.prems have wf: "well_formed s" and rest: "list_all well_formed songs" by simp_all
  obtain r st1 where g: "get_telegram_file_id env s st = (r, st1)"
    by (cases "get_telegram_file_id env s st")
  with gtf_no_raise [OF wf Cons.prems(2), of st] obtain x where x: "r = Inr x" by auto
  have step: "\<exists>rs. fst (resolve_results env songs acc' st1) = Inr rs" for acc'
    by (rule Cons.IH [OF rest Cons.prems(2)])
  show ?case
  proof (cases "x = None \<or> x = Some []")
    case True
    with g x step [of acc] show ?thesis by auto
  next
    case False
    then obtain t where t: "x = Some t" "t \<noteq> []" by auto
    from well_formed_cached [OF wf] obtain e where "cached_audio s t = Inr e" by blast
    with g x t step [of "acc @ [e]"] show ?thesis by simp
  qed
qed

lemma rr_all_fail:
  "\<forall>s\<in>set songs. media_fetch_fails env s \<and> \<not> present st s \<Longrightarrow>
   fst (resolve_results env songs acc st) = Inr acc"
proof (induction songs arbitrary: st)
  case Nil
  then show ?case by simp
next
  case (Cons s songs)
  from Cons.prems have f: "media_fetch_fails env s" and a: "\<not> present st s" by simp_all
  from f obtain k u where k: "slug s = Some k" and u: "file_url s = Some u"
    by (auto simp: media_fetch_fails_def dest: extract_metadata_url)
  with a have n: "file_id_storage st k = None" by (simp add: present_def)
  let ?st1 = "st\<lparr>net_log := net_log st @ [MediaFetch u]\<rparr>"
  have g: "get_telegram_file_id env s st = (Inr None, ?st1)"
    by (rule gtf_fails [OF f k n u])
  have "present ?st1 = present st"
    by (intro ext) (simp add: present_def split: option.splits)
  with Cons.prems have "\<forall>s\<in>set songs. media_fetch_fails env s \<and> \<not> present ?st1 s" by simp
  from Cons.IH [OF this] g show ?case by simp
qed

lemma page_usable_shape:
  assumes "page_usable env lg query"
  obtains status body where "catalog_get env lg (search_url query) = Response status body"
    "status = 200 \<longrightarrow> (\<exists>l nx. body = Some (Page (Some l) nx))"
    "list_all well_formed (searched_songs env lg query)"
proof (cases "catalog_get env lg (search_url query)")
  case Failed
  with assms show ?thesis by (simp add: page_usable_def)
next
  case (Response status body)
  with assms have "status = 200 \<longrightarrow> (\<exists>l nx. body = Some (Page (Some l) nx))"
    by (cases body; cases "the body") (auto simp: page_usable_def split: option.splits)
  moreover from Response assms have "list_all well_formed (searched_songs env lg query)"
    by (auto simp: page_usable_def searched_songs_def split: option.splits)
  ultimately show ?thesis using Response that by blast
qed


subsection \<open>The file on disk\<close>

lemma startup_persisted: "startup d = Inr st \<Longrightarrow> persisted st"
  by (auto simp: startup_def persisted_def split: sum.splits)

lemma store_file_id_persisted: "persisted (store_file_id k v st)"
  by (simp add: store_file_id_def persisted_def Let_def)

lemma run_puts_persisted: "persisted st \<Longrightarrow> persisted (run_puts env ps st)"
proof (induction ps arbitrary: st)
  case Nil
  then show ?case by simp
next
  case (Cons p ps)
  then show ?case
    by (cases p) (simp_all add: store_file_id_persisted gtf_persisted)
qed

lemma persisted_reload:
  "persisted st \<Longrightarrow> \<exists>st'. startup (disk st) = Inr st' \<and> file_id_storage st' = file_id_storage st"
  by (simp add: persisted_def startup_def)

subsection \<open>The ingestion run\<close>

lemma fetch_pages_kept:
  "fetch_pages fuel env nx acc st = Some (r, st') \<Longrightarrow>
   file_id_storage st' = file_id_storage st \<and> disk st' = disk st \<and>
   query_cache st' = query_cache st \<and> ticks st' = ticks st \<and>
   filter is_media_fetch (net_log st') = filter is_media_fetch (net_log st)"
proof (induction fuel arbitrary: nx acc st)
  case 0
  then show ?case by (cases nx) (auto split: if_splits)
next
  case (Suc fuel)
  show ?case
  proof (cases nx)
    case None
    with Suc.prems show ?thesis by simp
  next
    case (Some u)
    let ?st1 = "st\<lparr>net_log := net_log st @ [CatalogPage u]\<rparr>"
    from Suc.prems Some consider
      (stop) "st' = st"
      | (last) "st' = ?st1"
      | (more) data rs where "fetch_pages fuel env (page_next data) (acc @ rs) ?st1 = Some (r, st')"
      by (auto simp: Let_def split: if_splits http_response.splits option.splits)
    then show ?thesis
    proof cases
      case stop
      then show ?thesis by simp
    next
      case last
      then show ?thesis by simp
    next
      case more
      from Suc.IH [OF more] show ?thesis by simp
    qed
  qed
qed

lemma present_cong:
  "\<forall>s\<in>set songs. \<forall>k. slug s = Some k \<longrightarrow> file_id_storage st' k = file_id_storage st k \<Longrightarrow>
   filter (\<lambda>s. \<not> present st' s) songs = filter (\<lambda>s. \<not> present st s) songs"
  by (rule filter_cong) (auto simp: present_def split: option.splits)

lemma upload_each_Cons:
  "upload_each env (s # l) st =
     (case upload_each env [s] st of
        (Inl e, st1) \<Rightarrow> (Inl e, st1)
      | (Inr u, st2) \<Rightarrow> upload_each env l st2)"
  by (simp split: option.splits sum.splits prod.splits)

lemma upload_one_present: "present st s \<Longrightarrow> upload_each env [s] st = (Inr (), st)"
  by (auto simp: present_def split: option.splits)

lemma upload_one_other:
  "slug s = Some k \<Longrightarrow> k' \<noteq> k \<Longrightarrow>
   file_id_storage (snd (upload_each env [s] st)) k' = file_id_storage st k'"
  using gtf_other_slugs [of s k k' env st]
  by (auto simp: store_file_id_def Let_def split: option.splits sum.splits prod.splits)

lemma upload_one_trace:
  assumes "\<not> present st s" and "upload_each env [s] st = (Inr u, st')"
  shows "\<exists>url. file_url s = Some url \<and>
       filter is_media_fetch (net_log st') = filter is_media_fetch (net_log st) @ [MediaFetch url]"
proof -
  from assms obtain k where k: "slug s = Some k" "file_id_storage st k = None"
    by (auto simp: present_def split: option.splits)
  with assms(2) obtain x st1 where g: "get_telegram_file_id env s st = (Inr x, st1)"
    and "net_log st' = net_log st1"
    by (auto simp: store_file_id_def Let_def split: option.splits sum.splits prod.splits if_splits)
  with gtf_media_trace [OF k g] show ?thesis by simp
qed

lemma upload_each_skips:
  "distinct (map slug songs) \<Longrightarrow>
   upload_each env songs st = upload_each env (filter (\<lambda>s. \<not> present st s) songs) st"
proof (induction songs arbitrary: st)
  case Nil
  then show ?case by simp
next
  case (Cons s songs)
  from Cons.prems have d: "distinct (map slug songs)" and fresh: "slug s \<notin> set (map slug songs)"
    by simp_all
  let ?rest = "filter (\<lambda>s. \<not> present st s) songs"
  show ?case
  proof (cases "present st s")
    case True
    have "upload_each env (s # songs) st = upload_each env songs st"
      unfolding upload_each_Cons [of env s songs] upload_one_present [OF True] by simp
    with True Cons.IH [OF d, of st] show ?thesis by simp
  next
    case False
    have tail: "upload_each env songs st2 = upload_each env ?rest st2"
      if "upload_each env [s] st = (Inr u, st2)" for u st2
    proof -
      have "filter (\<lambda>s. \<not> present st2 s) songs = ?rest"
      proof (rule present_cong, intro ballI allI impI)
        fix s' k' assume s': "s' \<in> set songs" "slug s' = Some k'"
        with fresh have ne: "slug s \<noteq> Some k'" by force
        show "file_id_storage st2 k' = file_id_storage st k'"
        proof (cases "slug s")
          case None
          with that show ?thesis by simp
        next
          case (Some k)
          with ne have "k' \<noteq> k" by simp
          from upload_one_other [OF Some this, of env st] that show ?thesis by simp
        qed
      qed
      with Cons.IH [OF d, of st2] show ?thesis by simp
    qed
    have "upload_each env (s # songs) st = upload_each env (s # ?rest) st"
      by (subst (1 2) upload_each_Cons) (auto split: prod.splits sum.splits simp: tail)
    with False show ?thesis by simp
  qed
qed

lemma upload_each_trace:
  "upload_each env songs st = (Inr u, st') \<Longrightarrow> \<forall>s\<in>set songs. \<not> present st s \<Longrightarrow>
   distinct (map slug songs) \<Longrightarrow>
   \<exists>urls. map Some urls = map file_url songs \<and>
     filter is_media_fetch (net_log st') = filter is_media_fetch (net_log st) @ map MediaFetch urls"
proof (induction songs arbitrary: st)
  case Nil
  then show ?case by simp
next
  case (Cons s songs)
  from Cons.prems(3) have d: "distinct (map slug songs)" and fresh: "slug s \<notin> set (map slug songs)"
    by simp_all
  from Cons.prems(1) obtain u1 st1 where one: "upload_each env [s] st = (Inr u1, st1)"
    and rest: "upload_each env songs st1 = (Inr u, st')"
    by (subst (asm) upload_each_Cons) (auto split: prod.splits sum.splits)
  from Cons.prems(2) have absent: "\<not> present st s" by simp
  from upload_one_trace [OF absent one] obtain url where url: "file_url s = Some url"
    "filter is_media_fetch (net_log st1) = filter is_media_fetch (net_log st) @ [MediaFetch url]"
    by blast
  have "\<forall>s'\<in>set songs. \<not> present st1 s'"
  proof
    fix s' assume s': "s' \<in> set songs"
    with Cons.prems(2) have a: "\<not> present st s'" by simp
    show "\<not> present st1 s'"
    proof (cases "slug s'")
      case None
      then show ?thesis by (simp add: present_def)
    next
      case (Some k')
      with s' fresh have ne: "slug s \<noteq> Some k'" by force
      have "file_id_storage st1 k' = file_id_storage st k'"
      proof (cases "slug s")
        case None
        with one show ?thesis by simp
      next
        case (Some k)
        with ne have "k' \<noteq> k" by simp
        from upload_one_other [OF Some this, of env st] one show ?thesis by simp
      qed
      with a Some show ?thesis by (simp add: present_def)
    qed
  qed
  from Cons.IH [OF rest this d] obtain urls where
    "map Some urls = map file_url songs"
    "filter is_media_fetch (net_log st') = filter is_media_fetch (net_log st1) @ map MediaFetch urls"
    by blast
  with url have "map Some (url # urls) = map file_url (s # songs) \<and>
     filter is_media_fetch (net_log st') =
       filter is_media_fetch (net_log st) @ map MediaFetch (url # urls)"
    by simp
  then show ?case by blast
qed

lemma absent_count:
  "length (filter (\<lambda>s. \<not> present st s) songs) = length songs - length (filter (present st) songs)"
  using sum_length_filter_compl [of "present st" songs] by simp

lemma upload_each_storage_kept:
  "file_id_storage st k = Some t \<Longrightarrow> file_id_storage (snd (upload_each env songs st)) k = Some t"
proof (induction songs arbitrary: st)
  case Nil
  then show ?case by simp
next
  case (Cons s songs)
  show ?case
  proof (cases "slug s")
    case None
    with Cons.prems show ?thesis by simp
  next
    case (Some k')
    show ?thesis
    proof (cases "file_id_storage st k'")
      case (Some present)
      with \<open>slug s = Some k'\<close> Cons show ?thesis by simp
    next
      case None
      with Cons.prems have ne: "k \<noteq> k'" by auto
      obtain r st1 where g: "get_telegram_file_id env s st = (r, st1)"
        by (cases "get_telegram_file_id env s st")
      with Cons.prems have kept: "file_id_storage st1 k = Some t"
        using gtf_storage_kept [of st k t env s] by simp
      with ne have "file_id_storage (store_file_id k' v st1) k = Some t" for v
        by (simp add: store_file_id_def Let_def)
      with kept Cons.IH g None \<open>slug s = Some k'\<close> show ?thesis
        by (auto split: sum.splits option.splits)
    qed
  qed
qed

lemma upload_songs_storage_kept:
  assumes "file_id_storage st k = Some t" and "upload_songs fuel env st = Some (r, st')"
  shows "file_id_storage st' k = Some t"
proof -
  from assms(2) obtain r1 st1 where f: "fetch_all_songs_from_api fuel env st = Some (r1, st1)"
    by (auto simp: upload_songs_def split: option.splits)
  then have "file_id_storage st1 = file_id_storage st"
    by (auto simp: fetch_all_songs_from_api_def dest: fetch_pages_kept)
  with assms(1) have k1: "file_id_storage st1 k = Some t" by simp
  show ?thesis
  proof (cases r1)
    case (Inl e)
    with f assms(2) k1 show ?thesis by (simp add: upload_songs_def)
  next
    case (Inr songs)
    from upload_each_storage_kept [OF k1, of env songs] f Inr assms(2) k1 show ?thesis
      by (auto simp: upload_songs_def split: if_splits prod.splits sum.splits)
  qed
qed

section \<open>The scenario, evaluated\<close>

lemma strip_blue: "strip '' blue '' = ''blue''"
  by (simp add: strip_def is_space_def)

lemma demo_env_simps:
  "catalog_get demo_env lg u = Response 200 (Some (Page (Some [song_abc, song_gone]) None))"
  "timer demo_env n = n"
  "answer_inline_query demo_env lg i rs"
  by (simp_all add: demo_env_def)

lemma demo_searched: "searched_songs demo_env lg query = [song_abc, song_gone]"
  by (simp add: searched_songs_def demo_env_simps)

lemma demo_slugs: "slug song_abc = Some ''abc''" "slug song_gone = Some ''gone''"
  by (simp_all add: song_abc_def song_gone_def)

lemma demo_resolve_abc:
  "file_id_storage st ''abc'' = None \<Longrightarrow>
   get_telegram_file_id demo_env song_abc st =
     (Inr (Some ''tok123''),
      st\<lparr>net_log := net_log st @ [MediaFetch ''http://x/a.mp3'', SendAudio abc_upload],
         file_id_storage := (file_id_storage st)(''abc'' \<mapsto> ''tok123''),
         disk := JsonFile ((file_id_storage st)(''abc'' \<mapsto> ''tok123''))\<rparr>)"
  by (simp add: resolver_defs extract_metadata_def song_abc_def demo_env_def abc_upload_def)

lemma demo_gone_fails: "media_fetch_fails demo_env song_gone"
  by (simp add: media_fetch_fails_def extract_metadata_def song_gone_def demo_env_def)

lemma demo_resolve_gone:
  "file_id_storage st ''gone'' = None \<Longrightarrow>
   get_telegram_file_id demo_env song_gone st =
     (Inr None, st\<lparr>net_log := net_log st @ [MediaFetch ''http://x/g.mp3'']\<rparr>)"
  by (rule gtf_fails [OF demo_gone_fails]) (simp_all add: song_gone_def)

lemma demo_cached_abc: "cached_audio song_abc ''tok123'' = Inr abc_result"
  by (simp add: cached_audio_def song_abc_def abc_result_def)

lemma demo_miss: "\<not> cache_contains (query_cache empty_world) k now"
  by (simp add: cache_contains_def empty_world_def)

lemma demo_first_query:
  "inline_query_results demo_env '' blue '' empty_world = (Inr [abc_result], blue_world)"
  by (simp add: inline_query_results_def strip_blue cache_contains_def fetch_songs_from_api_def
      search_url_def demo_env_simps demo_resolve_abc demo_resolve_gone demo_cached_abc cache_setitem_def ttl_def
      Let_def API_BASE_URL_def empty_world_def blue_world_def)

lemma demo_dependable: "dependable demo_env"
  by (simp add: dependable_def demo_env_def)

lemma demo_well_formed: "list_all well_formed [song_abc, song_gone]"
  by (simp add: well_formed_def song_abc_def song_gone_def)

lemma demo_listing:
  "fetch_all_songs_from_api 3 demo_env st =
     Some (Inr [song_abc, song_gone],
           st\<lparr>net_log := net_log st @
              [CatalogPage ''https://new.akarpov.ru/api/v1/music/song/?page_size=1000'']\<rparr>)"
  by (simp add: fetch_all_songs_from_api_def numeral_3_eq_3 demo_env_simps API_BASE_URL_def)

lemma demo_ingest_stored: "upload_songs 3 demo_env stored_world = Some (Inr None, ingested_world)"
  by (simp add: upload_songs_def demo_listing demo_slugs demo_resolve_gone stored_world_def
      ingested_world_def)

lemma demo_ingest_empty: "upload_songs 3 demo_env empty_world = Some (Inr None, uploaded_world)"
  by (simp add: upload_songs_def demo_listing demo_slugs demo_resolve_gone demo_resolve_abc
      store_file_id_def empty_world_def uploaded_world_def Let_def)

lemma down_env_simps:
  "catalog_get down_env lg u = Response 503 None"
  "timer down_env n = n"
  "answer_inline_query down_env lg i rs"
  "dependable down_env"
  by (simp_all add: down_env_def demo_env_def dependable_def)

lemma down_first_query: "inline_query_results down_env ''blue'' empty_world = (Inr [], down_world)"
  by (simp add: inline_query_results_def strip_def is_space_def cache_contains_def
      fetch_songs_from_api_def search_url_def down_env_simps cache_setitem_def ttl_def Let_def
      API_BASE_URL_def empty_world_def down_world_def)

section \<open>Properties\<close>

text \<open>
  C1. A song whose slug has an entry in the storage resolves to the stored file id and
  the world is returned as it was: nothing is added to the log of network calls
  (no media fetch, no thumbnail fetch, no upload), nothing is written.
\<close>

theorem resolve_fast_path:
  "slug song_data = Some k \<Longrightarrow> file_id_storage st k = Some file_id \<Longrightarrow>
   get_telegram_file_id env song_data st = (Inr (Some file_id), st)"
  by (simp add: get_telegram_file_id_def)

theorem resolve_fast_path_witness:
  "slug song_abc = Some ''abc'' \<and> file_id_storage stored_world ''abc'' = Some ''tok123'' \<and>
   get_telegram_file_id demo_env song_abc stored_world = (Inr (Some ''tok123''), stored_world)"
  using resolve_fast_path [of song_abc "''abc''" stored_world "''tok123''" demo_env]
  by (simp add: song_abc_def stored_world_def)

text \<open>
  C2. Take a song that is not in the storage and whose media fetch answers with a status
  other than 200. Resolving it returns \<^verbatim>\<open>None\<close> after the one media fetch and leaves
  the storage and the file as they were. When an inline query misses the cache and the
  catalog's page holds the song (every record of the page with that slug failing in the
  same way), the storage has no entry for the slug after the query and no result of the
  query carries the slug.
\<close>

theorem failed_media_fetch_yields_nothing:
  assumes "media_fetch_fails env s" and "slug s = Some k" and "file_url s = Some u"
    and "file_id_storage st k = None"
    and "\<not> cache_contains (query_cache st) (strip q) (timer env (ticks st))"
    and "s \<in> set (searched_songs env (net_log st) (strip q))"
    and "\<forall>s'\<in>set (searched_songs env (net_log st) (strip q)).
           slug s' = Some k \<longrightarrow> media_fetch_fails env s'"
  shows "get_telegram_file_id env s st =
           (Inr None, st\<lparr>net_log := net_log st @ [MediaFetch u]\<rparr>) \<and>
         file_id_storage (snd (inline_query_results env q st)) k = None \<and>
         (\<forall>rs. fst (inline_query_results env q st) = Inr rs \<longrightarrow> k \<notin> result_id ` set rs)"
proof -
  let ?st2 = "st\<lparr>ticks := Suc (ticks st),
                  net_log := net_log st @ [CatalogSearch (search_url (strip q))]\<rparr>"
  let ?songs = "searched_songs env (net_log st) (strip q)"
  have one: "get_telegram_file_id env s st =
      (Inr None, st\<lparr>net_log := net_log st @ [MediaFetch u]\<rparr>)"
    using gtf_fails [OF assms(1,2,4,3)] .
  have "file_id_storage ?st2 k = None" using assms(4) by simp
  from rr_absent [OF this assms(7), of "[]"]
  have loop: "file_id_storage (snd (resolve_results env ?songs [] ?st2)) k = None"
    "\<forall>rs. fst (resolve_results env ?songs [] ?st2) = Inr rs \<longrightarrow> k \<notin> result_id ` set rs"
    by simp_all
  from iqr_miss_any [OF assms(5)] loop assms(4)
  have "file_id_storage (snd (inline_query_results env q st)) k = None \<and>
    (\<forall>rs. fst (inline_query_results env q st) = Inr rs \<longrightarrow> k \<notin> result_id ` set rs)"
    by auto
  with one show ?thesis by simp
qed

theorem failed_media_fetch_yields_nothing_witness:
  "media_fetch_fails demo_env song_gone \<and> slug song_gone = Some ''gone'' \<and>
   file_url song_gone = Some ''http://x/g.mp3'' \<and> file_id_storage empty_world ''gone'' = None \<and>
   \<not> cache_contains (query_cache empty_world) (strip '' blue '') (timer demo_env (ticks empty_world)) \<and>
   song_gone \<in> set (searched_songs demo_env (net_log empty_world) (strip '' blue '')) \<and>
   get_telegram_file_id demo_env song_gone empty_world =
     (Inr None, empty_world\<lparr>net_log := net_log empty_world @ [MediaFetch ''http://x/g.mp3'']\<rparr>) \<and>
   file_id_storage (snd (inline_query_results demo_env '' blue '' empty_world)) ''gone'' = None \<and>
   fst (inline_query_results demo_env '' blue '' empty_world) = Inr [abc_result] \<and>
   ''gone'' \<notin> result_id ` set [abc_result]"
proof -
  have h1: "slug song_gone = Some ''gone''" and h2: "file_url song_gone = Some ''http://x/g.mp3''"
    by (simp_all add: song_gone_def)
  have h3: "file_id_storage empty_world ''gone'' = None"
    by (simp add: empty_world_def)
  have h4: "song_gone \<in> set (searched_songs demo_env (net_log empty_world) (strip '' blue ''))"
    by (simp add: demo_searched)
  have h5: "\<forall>s'\<in>set (searched_songs demo_env (net_log empty_world) (strip '' blue '')).
      slug s' = Some ''gone'' \<longrightarrow> media_fetch_fails demo_env s'"
    by (simp add: demo_searched demo_slugs demo_gone_fails)
  from failed_media_fetch_yields_nothing [OF demo_gone_fails h1 h2 h3 demo_miss h4 h5]
    demo_gone_fails h1 h2 h3 h4 demo_miss demo_first_query
  show ?thesis by simp
qed

text \<open>
  C3, as the specification states it, fails: a page with a record that has no
  \<^verbatim>\<open>slug\<close> key makes the handler raise \<^verbatim>\<open>KeyError\<close>; nothing is answered.
\<close>

theorem record_without_slug_raises:
  "fst (inline_query slugless_env demo_update empty_world) = Inl KeyError"
  by (simp add: inline_query_def inline_query_results_def cache_contains_def
      fetch_songs_from_api_def get_telegram_file_id_def slugless_env_def demo_env_def
      demo_update_def empty_world_def song_abc_def Let_def)

text \<open>
  C3, amended. When the catalog answers the search without raising and with well-formed
  records, media requests and uploads do not raise, Telegram accepts the answer, and an
  entry found by the membership test of the cache is still unexpired at the read that
  follows, the handler ends normally and its last network call hands a result list to
  Telegram. On a cache miss that list is empty when no song of the page resolves: the page
  is empty (as for a catalog status other than 200) or every media fetch answers with a
  status other than 200.
\<close>

theorem inline_query_answers_when_nothing_raises:
  assumes "page_usable env (net_log st) (strip (inline_query_query upd))"
    and "dependable env"
    and "\<forall>lg rs. answer_inline_query env lg (inline_query_id upd) rs"
    and "cache_contains (query_cache st) (strip (inline_query_query upd)) (timer env (ticks st)) \<longrightarrow>
         cache_contains (query_cache st) (strip (inline_query_query upd)) (timer env (Suc (ticks st)))"
  shows "\<exists>rs st' evs.
           inline_query env upd st = (Inr (), st') \<and>
           net_log st' = net_log st @ evs @ [AnswerInlineQuery (inline_query_id upd) rs] \<and>
           (\<not> cache_contains (query_cache st) (strip (inline_query_query upd)) (timer env (ticks st)) \<longrightarrow>
            (\<forall>s\<in>set (searched_songs env (net_log st) (strip (inline_query_query upd))).
               media_fetch_fails env s \<and> \<not> present st s) \<longrightarrow>
            rs = [])"
proof (cases "cache_contains (query_cache st) (strip (inline_query_query upd)) (timer env (ticks st))")
  case True
  let ?q = "strip (inline_query_query upd)"
  from True obtain v e where ve: "map_of (query_cache st) ?q = Some (v, e)"
    and t0: "timer env (ticks st) < e"
    by (auto simp: cache_contains_def split: option.splits)
  from True assms(4) ve have t1: "timer env (Suc (ticks st)) < e"
    by (simp add: cache_contains_def)
  from iqr_hit [OF ve t0 t1] assms(3) True show ?thesis
    by (simp add: inline_query_def Let_def)
next
  case False
  let ?q = "strip (inline_query_query upd)"
  let ?st2 = "st\<lparr>ticks := Suc (ticks st), net_log := net_log st @ [CatalogSearch (search_url ?q)]\<rparr>"
  let ?songs = "searched_songs env (net_log st) ?q"
  from assms(1) obtain status body where
    c: "catalog_get env (net_log st) (search_url ?q) = Response status body"
    and shape: "status = 200 \<longrightarrow> (\<exists>l nx. body = Some (Page (Some l) nx))"
    and wf: "list_all well_formed ?songs"
    by (rule page_usable_shape)
  obtain r st3 where loop: "resolve_results env ?songs [] ?st2 = (r, st3)"
    by (cases "resolve_results env ?songs [] ?st2")
  with rr_no_raise [OF wf assms(2), of "[]" ?st2] obtain rs where rs: "r = Inr rs" by auto
  from rr_log_grows [of env ?songs "[]" ?st2] loop obtain evs where
    evs: "net_log st3 = net_log st @ CatalogSearch (search_url ?q) # evs"
    by auto
  let ?st4 = "st3\<lparr>query_cache := cache_setitem (query_cache st3) ?q rs (timer env (ticks st3)),
                   ticks := Suc (ticks st3)\<rparr>"
  from iqr_miss_resolved [OF False c shape] loop rs
  have res: "inline_query_results env (inline_query_query upd) st = (Inr rs, ?st4)"
    by simp
  have ans: "inline_query env upd st =
      (Inr (), ?st4\<lparr>net_log := net_log ?st4 @ [AnswerInlineQuery (inline_query_id upd) rs]\<rparr>)"
    using res assms(3) by (simp add: inline_query_def Let_def)
  have empty: "rs = []"
    if all: "\<forall>s\<in>set ?songs. media_fetch_fails env s \<and> \<not> present st s"
  proof -
    have "present ?st2 = present st"
      by (intro ext) (simp add: present_def split: option.splits)
    with all have "\<forall>s\<in>set ?songs. media_fetch_fails env s \<and> \<not> present ?st2 s" by simp
    from rr_all_fail [OF this, of "[]"] loop rs show ?thesis by simp
  qed
  have "net_log (?st4\<lparr>net_log := net_log ?st4 @ [AnswerInlineQuery (inline_query_id upd) rs]\<rparr>) =
      net_log st @ (CatalogSearch (search_url ?q) # evs) @ [AnswerInlineQuery (inline_query_id upd) rs]"
    using evs by simp
  with ans empty False show ?thesis by blast
qed

theorem inline_query_answers_when_nothing_raises_witness:
  "page_usable demo_env (net_log empty_world) (strip (inline_query_query demo_update)) \<and>
   dependable demo_env \<and>
   fst (inline_query demo_env demo_update empty_world) = Inr () \<and>
   page_usable down_env (net_log empty_world) (strip (inline_query_query demo_update)) \<and>
   dependable down_env \<and>
   searched_songs down_env (net_log empty_world) (strip (inline_query_query demo_update)) = [] \<and>
   fst (inline_query down_env demo_update empty_world) = Inr () \<and>
   last (net_log (snd (inline_query down_env demo_update empty_world))) =
     AnswerInlineQuery (inline_query_id demo_update) []"
proof -
  let ?q = "strip (inline_query_query demo_update)"
  have up: "\<forall>lg rs. answer_inline_query demo_env lg (inline_query_id demo_update) rs"
    by (simp add: demo_env_simps)
  have norace: "cache_contains (query_cache empty_world) ?q (timer env (ticks empty_world)) \<longrightarrow>
      cache_contains (query_cache empty_world) ?q (timer env (Suc (ticks empty_world)))" for env
    by (simp add: demo_miss)
  have page: "page_usable demo_env (net_log empty_world) ?q"
    using demo_well_formed by (simp add: page_usable_def demo_env_simps)
  from inline_query_answers_when_nothing_raises [OF page demo_dependable up norace]
  have one: "fst (inline_query demo_env demo_update empty_world) = Inr ()"
    by auto
  have down: "\<forall>lg rs. answer_inline_query down_env lg (inline_query_id demo_update) rs"
    by (simp add: down_env_simps)
  have nopage: "page_usable down_env (net_log empty_world) ?q"
    by (simp add: page_usable_def down_env_simps)
  have none: "searched_songs down_env (net_log empty_world) ?q = []"
    by (simp add: searched_songs_def down_env_simps)
  from inline_query_answers_when_nothing_raises [OF nopage down_env_simps(4) down norace]
  obtain rs st' evs where
    "inline_query down_env demo_update empty_world = (Inr (), st')"
    "net_log st' = net_log empty_world @ evs @ [AnswerInlineQuery (inline_query_id demo_update) rs]"
    "rs = []"
    using demo_miss none by auto
  then have two: "fst (inline_query down_env demo_update empty_world) = Inr () \<and>
      last (net_log (snd (inline_query down_env demo_update empty_world))) =
        AnswerInlineQuery (inline_query_id demo_update) []"
    by simp
  from one two page nopage none demo_dependable show ?thesis
    by (simp add: down_env_simps)
qed

text \<open>
  C4, as the specification states it, fails: \<^verbatim>\<open>load_file_ids\<close> catches
  \<^verbatim>\<open>FileNotFoundError\<close> only, so a file that does not parse ends the start of the
  process with \<^verbatim>\<open>JSONDecodeError\<close> instead of giving an empty store.
\<close>

theorem unparseable_file_is_fatal:
  "load_file_ids Unparseable = Inl JSONDecodeError \<and> startup Unparseable = Inl JSONDecodeError"
  by (simp add: startup_def)

text \<open>
  C4, amended. At startup a missing file gives the empty storage, a file holding a JSON
  object gives that mapping, and a file that does not parse raises
  \<^verbatim>\<open>JSONDecodeError\<close>.
\<close>

theorem startup_load:
  "(\<exists>st. startup NoFile = Inr st \<and> file_id_storage st = Map.empty) \<and>
   (\<exists>st. startup (JsonFile m) = Inr st \<and> file_id_storage st = m) \<and>
   startup Unparseable = Inl JSONDecodeError"
  by (simp add: startup_def)

text \<open>
  C5, as the specification states it, fails: a run that newly resolves one song returns
  \<^verbatim>\<open>None\<close>, not the count 1.
\<close>

theorem upload_songs_returns_no_count:
  "upload_songs 3 demo_env empty_world = Some (Inr None, uploaded_world) \<and>
   file_id_storage empty_world ''abc'' = None \<and>
   file_id_storage uploaded_world ''abc'' = Some ''tok123''"
  by (simp add: demo_ingest_empty) (simp add: empty_world_def uploaded_world_def)

text \<open>
  C5, amended. \<^verbatim>\<open>upload_songs\<close> returns \<^verbatim>\<open>None\<close>. Over a listing of \<open>N\<close> songs
  with distinct slugs of which \<open>M\<close> are in the storage, a run that ends without an
  exception behaves as the run over the \<open>N - M\<close> absent songs alone (a stored song adds
  no network call and changes nothing), and its media fetches are exactly the audio URLs
  of those \<open>N - M\<close> songs, in the order of the listing.
\<close>

theorem upload_songs_fetches_absent_songs:
  assumes "fetch_all_songs_from_api fuel env st = Some (Inr songs, st1)"
    and "distinct (map slug songs)"
    and "upload_songs fuel env st = Some (Inr ret, st')"
  shows "ret = None \<and>
         upload_each env songs st1 = upload_each env (filter (\<lambda>s. \<not> present st s) songs) st1 \<and>
         (\<exists>urls. map Some urls = map file_url (filter (\<lambda>s. \<not> present st s) songs) \<and>
            filter is_media_fetch (net_log st') =
              filter is_media_fetch (net_log st) @ map MediaFetch urls) \<and>
         length (filter is_media_fetch (net_log st')) =
           length (filter is_media_fetch (net_log st)) +
             (length songs - length (filter (present st) songs))"
proof -
  let ?absent = "filter (\<lambda>s. \<not> present st s) songs"
  from assms(1) have kept: "file_id_storage st1 = file_id_storage st"
    "filter is_media_fetch (net_log st1) = filter is_media_fetch (net_log st)"
    by (auto simp: fetch_all_songs_from_api_def dest: fetch_pages_kept)
  then have same: "present st1 = present st"
    by (intro ext) (simp add: present_def split: option.splits)
  from assms(1,3) have ret: "ret = None"
    by (auto simp: upload_songs_def split: if_splits prod.splits sum.splits)
  from assms(1,3) obtain u where run: "upload_each env songs st1 = (Inr u, st')"
    by (cases "songs = []") (auto simp: upload_songs_def split: if_splits prod.splits sum.splits)
  from upload_each_skips [OF assms(2), of env st1] same
  have skip: "upload_each env songs st1 = upload_each env ?absent st1" by simp
  have "distinct (map slug ?absent)"
    using assms(2) by (simp add: distinct_map_filter)
  moreover have "\<forall>s\<in>set ?absent. \<not> present st1 s" by (simp add: same)
  moreover from run skip have "upload_each env ?absent st1 = (Inr u, st')" by simp
  ultimately obtain urls where urls: "map Some urls = map file_url ?absent"
    "filter is_media_fetch (net_log st') = filter is_media_fetch (net_log st1) @ map MediaFetch urls"
    using upload_each_trace by blast
  from urls(1) have "length urls = length ?absent"
    by (metis length_map)
  with urls kept ret skip show ?thesis
    by (auto simp: absent_count)
qed

theorem upload_songs_fetches_absent_songs_witness:
  "fetch_all_songs_from_api 3 demo_env stored_world =
     Some (Inr [song_abc, song_gone],
           stored_world\<lparr>net_log := net_log stored_world @
              [CatalogPage ''https://new.akarpov.ru/api/v1/music/song/?page_size=1000'']\<rparr>) \<and>
   distinct (map slug [song_abc, song_gone]) \<and>
   upload_songs 3 demo_env stored_world = Some (Inr None, ingested_world) \<and>
   length (filter (present stored_world) [song_abc, song_gone]) = 1 \<and>
   length (filter is_media_fetch (net_log ingested_world)) = 1"
proof -
  have d: "distinct (map slug [song_abc, song_gone])"
    by (simp add: demo_slugs)
  have m: "length (filter (present stored_world) [song_abc, song_gone]) = 1"
    by (simp add: present_def demo_slugs stored_world_def)
  from upload_songs_fetches_absent_songs [OF demo_listing d demo_ingest_stored]
  have "length (filter is_media_fetch (net_log ingested_world)) =
      length (filter is_media_fetch (net_log stored_world)) +
        (length [song_abc, song_gone] - length (filter (present stored_world) [song_abc, song_gone]))"
    by blast
  with m have "length (filter is_media_fetch (net_log ingested_world)) = 1"
    by (simp add: stored_world_def)
  with d m demo_listing demo_ingest_stored show ?thesis by simp
qed



text \<open>
  C7. After a call that returned a result list, the cache holds an entry for the stripped
  query; a second call whose two clock readings lie before the expiry of that entry
  returns the same list, adds nothing to the log of network calls and leaves the storage
  and the file as they were.
\<close>

theorem repeated_query_served_from_cache:
  assumes "inline_query_results env q st = (Inr rs, st1)"
  shows "\<exists>e. map_option snd (map_of (query_cache st1) (strip q)) = Some e \<and>
     (timer env (ticks st1) < e \<and> timer env (Suc (ticks st1)) < e \<longrightarrow>
       (\<exists>st2. inline_query_results env q st1 = (Inr rs, st2) \<and> net_log st2 = net_log st1 \<and>
          file_id_storage st2 = file_id_storage st1 \<and> disk st2 = disk st1))"
proof -
  from iqr_entry [OF assms] obtain e where e: "map_of (query_cache st1) (strip q) = Some (rs, e)"
    by blast
  have "\<exists>st2. inline_query_results env q st1 = (Inr rs, st2) \<and> net_log st2 = net_log st1 \<and>
          file_id_storage st2 = file_id_storage st1 \<and> disk st2 = disk st1"
    if "timer env (ticks st1) < e" "timer env (Suc (ticks st1)) < e"
    using iqr_hit [OF e that] by simp
  with e show ?thesis by simp
qed

theorem repeated_query_served_from_cache_witness:
  "inline_query_results demo_env '' blue '' empty_world = (Inr [abc_result], blue_world) \<and>
   map_option snd (map_of (query_cache blue_world) (strip '' blue '')) = Some 601 \<and>
   timer demo_env (ticks blue_world) < 601 \<and> timer demo_env (Suc (ticks blue_world)) < 601 \<and>
   fst (inline_query_results demo_env '' blue '' blue_world) = Inr [abc_result] \<and>
   net_log (snd (inline_query_results demo_env '' blue '' blue_world)) = net_log blue_world"
proof -
  have e: "map_option snd (map_of (query_cache blue_world) (strip '' blue '')) = Some 601"
    by (simp add: blue_world_def strip_blue)
  have t: "timer demo_env (ticks blue_world) < 601" "timer demo_env (Suc (ticks blue_world)) < 601"
    by (simp_all add: demo_env_simps blue_world_def)
  from repeated_query_served_from_cache [OF demo_first_query] e t
  have "\<exists>st2. inline_query_results demo_env '' blue '' blue_world = (Inr [abc_result], st2) \<and>
      net_log st2 = net_log blue_world"
    by auto
  then have "fst (inline_query_results demo_env '' blue '' blue_world) = Inr [abc_result] \<and>
      net_log (snd (inline_query_results demo_env '' blue '' blue_world)) = net_log blue_world"
    by auto
  with demo_first_query e t show ?thesis by simp
qed

text \<open>
  C8. Start a process from any file it can load and let it do any sequence of puts, by
  \<^verbatim>\<open>store_file_id\<close> or by the resolver. A fresh process started from the file then on
  disk loads exactly the mapping the first process holds in memory.
\<close>

theorem token_store_round_trip:
  "startup d = Inr st0 \<Longrightarrow>
   \<exists>st'. startup (disk (run_puts env ps st0)) = Inr st' \<and>
         file_id_storage st' = file_id_storage (run_puts env ps st0)"
  by (rule persisted_reload) (rule run_puts_persisted, rule startup_persisted)

theorem token_store_round_trip_witness:
  "startup NoFile = Inr empty_world \<and>
   (\<exists>st'. startup (disk (run_puts demo_env [Resolved song_abc, Stored ''gone'' ''tok9''] empty_world))
             = Inr st' \<and>
          file_id_storage st' =
            file_id_storage (run_puts demo_env [Resolved song_abc, Stored ''gone'' ''tok9''] empty_world)) \<and>
   file_id_storage (run_puts demo_env [Resolved song_abc, Stored ''gone'' ''tok9''] empty_world) ''abc''
     = Some ''tok123''"
proof -
  have s: "startup NoFile = Inr empty_world"
    by (simp add: startup_def empty_world_def)
  have "file_id_storage (run_puts demo_env [Resolved song_abc, Stored ''gone'' ''tok9''] empty_world)
      ''abc'' = Some ''tok123''"
    by (simp add: demo_resolve_abc store_file_id_def empty_world_def Let_def)
  with token_store_round_trip [OF s, of demo_env "[Resolved song_abc, Stored ''gone'' ''tok9'']"] s
  show ?thesis by simp
qed

text \<open>
  C9. The storage is a dict, so a slug has at most one entry. An entry that is in the
  storage is still there, with the same file id, after a resolution, after an inline
  query (however it ends), after any number of steps of the ingestion loop and after a
  whole ingestion run.
\<close>

theorem token_entries_write_once:
  assumes "file_id_storage st k = Some t"
  shows "file_id_storage (snd (get_telegram_file_id env s st)) k = Some t \<and>
         file_id_storage (snd (inline_query env upd st)) k = Some t \<and>
         file_id_storage (snd (upload_each env songs st)) k = Some t \<and>
         (\<forall>r st'. upload_songs fuel env st = Some (r, st') \<longrightarrow> file_id_storage st' k = Some t)"
proof (intro conjI allI impI)
  show "file_id_storage (snd (get_telegram_file_id env s st)) k = Some t"
    using assms by (rule gtf_storage_kept)
  show "file_id_storage (snd (inline_query env upd st)) k = Some t"
    using assms by (rule inline_query_storage_kept)
  show "file_id_storage (snd (upload_each env songs st)) k = Some t"
    using assms by (rule upload_each_storage_kept)
  show "file_id_storage st' k = Some t" if "upload_songs fuel env st = Some (r, st')" for r st'
    using assms that by (rule upload_songs_storage_kept)
qed

theorem token_entries_write_once_witness:
  "file_id_storage stored_world ''abc'' = Some ''tok123'' \<and>
   file_id_storage (snd (get_telegram_file_id demo_env song_gone stored_world)) ''abc'' = Some ''tok123'' \<and>
   file_id_storage (snd (inline_query demo_env demo_update stored_world)) ''abc'' = Some ''tok123'' \<and>
   file_id_storage (snd (upload_each demo_env [song_abc, song_gone] stored_world)) ''abc'' = Some ''tok123'' \<and>
   upload_songs 3 demo_env stored_world = Some (Inr None, ingested_world) \<and>
   file_id_storage ingested_world ''abc'' = Some ''tok123''"
proof -
  have s: "file_id_storage stored_world ''abc'' = Some ''tok123''"
    by (simp add: stored_world_def)
  from token_entries_write_once [OF s, of demo_env song_gone demo_update "[song_abc, song_gone]" 3]
    demo_ingest_stored s
  show ?thesis by simp
qed

text \<open>
  C10. When a query that missed the cache yields the empty list, the cache holds the
  empty list under the stripped query, expiring \<open>ttl\<close> after the insertion; asking the
  same query \<open>n\<close> more times with every clock reading before that expiry returns the
  empty list each time, with no network call and no change of the storage.
\<close>

theorem empty_results_cached:
  assumes "\<not> cache_contains (query_cache st) (strip q) (timer env (ticks st))"
    and "inline_query_results env q st = (Inr [], st1)"
    and "\<forall>i<2 * n. timer env (ticks st1 + i) < timer env (Suc (ticks st)) + ttl"
  shows "map_of (query_cache st1) (strip q) = Some ([], timer env (Suc (ticks st)) + ttl) \<and>
         fst (repeat_query env q n st1) = replicate n (Inr []) \<and>
         net_log (snd (repeat_query env q n st1)) = net_log st1 \<and>
         file_id_storage (snd (repeat_query env q n st1)) = file_id_storage st1"
proof -
  from iqr_miss [OF assms(1,2)] obtain st3 where
    loop: "resolve_results env (searched_songs env (net_log st) (strip q)) []
             (st\<lparr>ticks := Suc (ticks st), net_log := net_log st @ [CatalogSearch (search_url (strip q))]\<rparr>)
           = (Inr [], st3)"
    and st1: "st1 = st3\<lparr>query_cache := cache_setitem (query_cache st3) (strip q) [] (timer env (ticks st3)),
                     ticks := Suc (ticks st3)\<rparr>"
    by blast
  from rr_cache_kept [of env "searched_songs env (net_log st) (strip q)" "[]"
      "st\<lparr>ticks := Suc (ticks st), net_log := net_log st @ [CatalogSearch (search_url (strip q))]\<rparr>"]
    loop
  have "ticks st3 = Suc (ticks st)" by simp
  then have entry: "map_of (query_cache st1) (strip q) = Some ([], timer env (Suc (ticks st)) + ttl)"
    by (simp add: st1 cache_setitem_entry)
  from repeat_hits [OF entry assms(3)] entry show ?thesis by simp
qed

theorem empty_results_cached_witness:
  "\<not> cache_contains (query_cache empty_world) (strip ''blue'') (timer down_env (ticks empty_world)) \<and>
   inline_query_results down_env ''blue'' empty_world = (Inr [], down_world) \<and>
   map_of (query_cache down_world) (strip ''blue'') = Some ([], 601) \<and>
   fst (repeat_query down_env ''blue'' 2 down_world) = [Inr [], Inr []] \<and>
   net_log (snd (repeat_query down_env ''blue'' 2 down_world)) = net_log down_world"
proof -
  have t: "\<forall>i<2 * 2. timer down_env (ticks down_world + i) < timer down_env (Suc (ticks empty_world)) + ttl"
    by (simp add: down_env_simps down_world_def empty_world_def ttl_def)
  from empty_results_cached [OF demo_miss down_first_query t] demo_miss down_first_query
  show ?thesis
    by (simp add: down_env_simps empty_world_def ttl_def numeral_2_eq_2)
qed

end
